theory Spec2Isabelle
  imports Complex_Main "HOL-Library.Product_Lexorder" "HOL-Library.Sublist" "HOL-Library.Multiset"
begin

section \<open>Data model of the board export\<close>

text \<open>
  The program (\<^verbatim>\<open>trello_to_pivotal.py\<close>, Python 2) reads a JSON board and writes CSV pages.
  Strings are byte lists; the \<^verbatim>\<open>unicode\<close>/\<^verbatim>\<open>utf-8\<close> conversions of the source are the
  identity in this model. Optional JSON fields are \<open>option\<close> values.
\<close>

datatype error = KeyError | ValueError | NameError | ZeroDivisionError | OverflowError

text \<open>
  A number of the JSON export as \<^verbatim>\<open>json.loads\<close> returns it: an integer literal becomes a
  Python integer of any size, a literal with a fraction or an exponent becomes a double,
  given here by its exact value. The literals \<^verbatim>\<open>NaN\<close> and \<^verbatim>\<open>Infinity\<close>, which are not
  JSON, are left out.
\<close>

datatype py_number = PyInt int | PyFloat rat


record label =
  label_name :: string

record check_item =
  item_id :: string
  item_name :: string
  item_state :: string

record checklist =
  checklist_name :: string
  checkItems :: "check_item list"

record check_item_state =
  idCheckItem :: string
  state :: string

record card =
  card_id :: string
  card_name :: string
  desc :: "string option"
  url :: string
  idList :: string
  pos :: py_number
  idMembers :: "string list"
  labels :: "label list"
  checklists :: "checklist list option"
  checkItemStates :: "check_item_state list option"
  comments :: "nat option"

record board_list =
  list_id :: string
  list_name :: string
  list_pos :: py_number

record member =
  member_id :: string
  fullName :: string

record board =
  board_name :: string
  lists :: "board_list list"
  members :: "member list"
  cards :: "card list"

text \<open>A cell of a CSV row: a string, an integer, or Python's \<^verbatim>\<open>None\<close>.\<close>

datatype cell = Str string | Num int | NoneCell

section \<open>Python dictionaries\<close>

text \<open>
  A dictionary is an association list without duplicate keys: \<open>dict_set\<close> replaces the value
  of a key that is present and appends a new key otherwise. \<open>dict_get\<close> is \<^verbatim>\<open>d.get(k, default)\<close>,
  \<open>dict_index\<close> is \<^verbatim>\<open>d[k]\<close>, which raises \<^verbatim>\<open>KeyError\<close> on a missing key.
\<close>

type_synonym ('k, 'v) dict = "('k \<times> 'v) list"

fun dict_set :: "('k, 'v) dict \<Rightarrow> 'k \<Rightarrow> 'v \<Rightarrow> ('k, 'v) dict" where
  "dict_set [] k v = [(k, v)]"
| "dict_set (p # ps) k v = (if fst p = k then (k, v) # ps else p # dict_set ps k v)"

definition dict_get :: "('k, 'v) dict \<Rightarrow> 'k \<Rightarrow> 'v \<Rightarrow> 'v" where
  "dict_get d k dflt = (case map_of d k of None \<Rightarrow> dflt | Some v \<Rightarrow> v)"

definition dict_index :: "('k, 'v) dict \<Rightarrow> 'k \<Rightarrow> error + 'v" where
  "dict_index d k = (case map_of d k of None \<Rightarrow> Inl KeyError | Some v \<Rightarrow> Inr v)"

definition dict_has :: "('k, 'v) dict \<Rightarrow> 'k \<Rightarrow> bool" where
  "dict_has d k = (map_of d k \<noteq> None)"

section \<open>Configuration tables\<close>

text \<open>
  The module-level tables \<^verbatim>\<open>LIST_STATES\<close>, \<^verbatim>\<open>LIST_ESTIMATES\<close>, \<^verbatim>\<open>LABEL_ESTIMATES\<close> and the
  command-line argument \<^verbatim>\<open>--default-estimate\<close> are gathered in one record that the
  transformer takes as a parameter. \<open>LABEL_ESTIMATES\<close> is iterated with \<^verbatim>\<open>.items()\<close>; the
  list gives the order of that iteration.
\<close>

record config =
  LIST_STATES :: "(string, string) dict"
  LIST_ESTIMATES :: "(string, int) dict"
  LABEL_ESTIMATES :: "(string, int) dict"
  default_estimate :: int

definition repo_LIST_STATES :: "(string, string) dict" where
  "repo_LIST_STATES =
    [(''Epics / Triage'', ''epic''),
     (''Backlog'', ''unstarted''),
     (''Next Up'', ''unstarted''),
     (''In Progress Now'', ''started''),
     (''Blocked'', ''started''),
     (''Feedback'', ''delivered''),
     (''Resolved'', ''accepted''),
     (''Unresolved'', ''accepted''),
     (''Closed'', ''accepted'')]"

definition repo_LIST_ESTIMATES :: "(string, int) dict" where
  "repo_LIST_ESTIMATES = []"

text \<open>
  In CPython 2 without hash randomisation both keys hash to slot 3 of the eight-slot table;
  \<^verbatim>\<open>'Short'\<close> is stored first and \<^verbatim>\<open>'Medium'\<close> is probed to slot 5, so \<^verbatim>\<open>.items()\<close>
  enumerates the two entries in the order in which the literal declares them.
\<close>

definition repo_LABEL_ESTIMATES :: "(string, int) dict" where
  "repo_LABEL_ESTIMATES = [(''Short'', 1), (''Medium'', 2)]"

definition repo_config :: "int \<Rightarrow> config" where
  "repo_config d = \<lparr>LIST_STATES = repo_LIST_STATES, LIST_ESTIMATES = repo_LIST_ESTIMATES,
     LABEL_ESTIMATES = repo_LABEL_ESTIMATES, default_estimate = d\<rparr>"

definition CHECKBOX_STATES :: "(string, string) dict" where
  "CHECKBOX_STATES = [(''incomplete'', ''not completed''), (''complete'', ''completed'')]"

section \<open>String primitives of Python 2\<close>

definition newline :: char where
  "newline = CHR 0x0A"

definition is_digit :: "char \<Rightarrow> bool" where
  "is_digit c = ((48::nat) \<le> of_char c \<and> of_char c \<le> (57::nat))"

text \<open>The whitespace of \<^verbatim>\<open>str.strip()\<close> and of \<^verbatim>\<open>int()\<close>: space, tab, LF, VT, FF, CR.\<close>

definition is_space :: "char \<Rightarrow> bool" where
  "is_space c = (of_char c = (32::nat) \<or> ((9::nat) \<le> of_char c \<and> of_char c \<le> (13::nat)))"

definition strip :: "string \<Rightarrow> string" where
  "strip s = rev (dropWhile is_space (rev (dropWhile is_space s)))"

text \<open>\<^verbatim>\<open>s.split(sep)\<close> for a one-character separator: always at least one segment.\<close>

fun split :: "char \<Rightarrow> string \<Rightarrow> string list" where
  "split sep [] = [[]]"
| "split sep (c # cs) =
     (if c = sep then [] # split sep cs
      else (case split sep cs of [] \<Rightarrow> [[c]] | w # ws \<Rightarrow> (c # w) # ws))"

fun join :: "string \<Rightarrow> string list \<Rightarrow> string" where
  "join sep [] = []"
| "join sep [x] = x"
| "join sep (x # y # ys) = x @ sep @ join sep (y # ys)"

definition digit_val :: "char \<Rightarrow> int" where
  "digit_val c = int (of_char c) - 48"

text \<open>
  \<^verbatim>\<open>int(s)\<close> in base 10: surrounding whitespace, an optional sign (Python 2 also skips
  whitespace after the sign), then one or more decimal digits and nothing else.
  Anything else raises \<^verbatim>\<open>ValueError\<close>.
\<close>

definition py_int :: "string \<Rightarrow> error + int" where
  "py_int s =
    (let s1 = dropWhile is_space s;
         sgn = (case s1 of [] \<Rightarrow> 1 | c # r \<Rightarrow> if c = CHR ''-'' then - 1 else (1::int));
         s2 = (case s1 of [] \<Rightarrow> [] | c # r \<Rightarrow> if c = CHR ''-'' \<or> c = CHR ''+'' then r else s1);
         s3 = dropWhile is_space s2;
         ds = takeWhile is_digit s3;
         rest = dropWhile is_space (dropWhile is_digit s3)
     in if ds = [] \<or> rest \<noteq> [] then Inl ValueError
        else Inr (sgn * foldl (\<lambda>a c. 10 * a + digit_val c) 0 ds))"

text \<open>\<^verbatim>\<open>str(n)\<close> of an integer: its decimal digits, with a minus sign when negative.\<close>

fun str_nat :: "nat \<Rightarrow> string" where
  "str_nat n = (if n < 10 then [char_of (48 + n)] else str_nat (n div 10) @ [char_of (48 + n mod 10)])"

declare str_nat.simps [simp del]

definition py_str :: "int \<Rightarrow> string" where
  "py_str n = (if n < 0 then CHR ''-'' # str_nat (nat (- n)) else str_nat (nat n))"

section \<open>Title and tag extraction\<close>

text \<open>
  The three regular expressions of the source are matched at the start of the title.
  \<^verbatim>\<open>.\<close> matches every byte but a newline, so a trailing greedy \<^verbatim>\<open>.+\<close> takes the
  longest run of bytes up to the first newline and must be non-empty.
\<close>

definition dot_plus :: "string \<Rightarrow> string" where
  "dot_plus s = takeWhile (\<lambda>c. c \<noteq> newline) s"

text \<open>\<^verbatim>\<open>re.search('^\((\d+?)\) (.+)', name)\<close>, returning group 2.\<close>

definition match_estimate_prefix :: "string \<Rightarrow> string option" where
  "match_estimate_prefix s =
    (case s of [] \<Rightarrow> None
     | c # r \<Rightarrow>
        (let ds = takeWhile is_digit r; rest = dropWhile is_digit r
         in if c = CHR ''('' \<and> ds \<noteq> [] \<and> take 2 rest = '') '' \<and> dot_plus (drop 2 rest) \<noteq> []
            then Some (dot_plus (drop 2 rest)) else None))"

text \<open>
  \<^verbatim>\<open>^(?P<tags>.+?): (?P<name>.+)\<close>: the lazy group \<open>tags\<close> grows one byte at a time until
  the rest of the pattern matches. The result is the pair (tags, name).
\<close>

fun lazy_colon :: "string \<Rightarrow> string \<Rightarrow> (string \<times> string) option" where
  "lazy_colon tags [] = None"
| "lazy_colon tags (c # cs) =
     (if tags \<noteq> [] \<and> take 2 (c # cs) = '': '' \<and> dot_plus (drop 2 (c # cs)) \<noteq> []
      then Some (tags, dot_plus (drop 2 (c # cs)))
      else if c = newline then None
      else lazy_colon (tags @ [c]) cs)"

definition match_tag_colon :: "string \<Rightarrow> (string \<times> string) option" where
  "match_tag_colon s = lazy_colon [] s"

text \<open>\<^verbatim>\<open>^\[(?P<tags>.+?)\]:? (?P<name>.+)\<close>, again with a lazy \<open>tags\<close> group.\<close>

definition after_bracket :: "string \<Rightarrow> string option" where
  "after_bracket r =
    (case r of [] \<Rightarrow> None
     | c # r1 \<Rightarrow>
        if c \<noteq> CHR '']'' then None
        else if take 2 r1 = '': '' \<and> dot_plus (drop 2 r1) \<noteq> [] then Some (dot_plus (drop 2 r1))
        else if take 1 r1 = '' '' \<and> dot_plus (drop 1 r1) \<noteq> [] then Some (dot_plus (drop 1 r1))
        else None)"

fun lazy_bracket :: "string \<Rightarrow> string \<Rightarrow> (string \<times> string) option" where
  "lazy_bracket tags [] = None"
| "lazy_bracket tags (c # cs) =
     (if tags \<noteq> [] \<and> after_bracket (c # cs) \<noteq> None
      then Some (tags, the (after_bracket (c # cs)))
      else if c = newline then None
      else lazy_bracket (tags @ [c]) cs)"

definition match_tag_bracket :: "string \<Rightarrow> (string \<times> string) option" where
  "match_tag_bracket s =
    (case s of [] \<Rightarrow> None | c # r \<Rightarrow> if c = CHR ''['' then lazy_bracket [] r else None)"

definition NAME_TAG_RES :: "(string \<Rightarrow> (string \<times> string) option) list" where
  "NAME_TAG_RES = [match_tag_colon, match_tag_bracket]"

text \<open>
  \<^verbatim>\<open>filter(lambda x: str(int(x)) != x, segments)\<close>: Python 2's \<^verbatim>\<open>filter\<close> is eager, so the
  first segment that \<^verbatim>\<open>int\<close> rejects raises \<^verbatim>\<open>ValueError\<close> for the whole call.
\<close>

fun filter_tags :: "string list \<Rightarrow> error + string list" where
  "filter_tags [] = Inr []"
| "filter_tags (x # xs) =
     (case py_int x of
        Inl e \<Rightarrow> Inl e
      | Inr n \<Rightarrow>
         (case filter_tags xs of
            Inl e \<Rightarrow> Inl e
          | Inr ys \<Rightarrow> Inr (if py_str n \<noteq> x then x # ys else ys)))"

text \<open>
  The loop over \<^verbatim>\<open>NAME_TAG_RES\<close>: the first pattern that matches replaces the title and
  extends the labels, then the loop breaks. Without a match both are unchanged.
\<close>

fun tag_loop :: "(string \<Rightarrow> (string \<times> string) option) list \<Rightarrow> string \<Rightarrow> string list
    \<Rightarrow> error + (string \<times> string list)" where
  "tag_loop [] name lbls = Inr (name, lbls)"
| "tag_loop (regex # res) name lbls =
     (case regex name of
        None \<Rightarrow> tag_loop res name lbls
      | Some (tags, name') \<Rightarrow>
         (case filter_tags (map strip (split (CHR ''/'') tags)) of
            Inl e \<Rightarrow> Inl e
          | Inr new \<Rightarrow> Inr (name', lbls @ new)))"

definition extract_title :: "string \<Rightarrow> string list \<Rightarrow> error + (string \<times> string list)" where
  "extract_title name lbls =
    (case match_estimate_prefix name of
       Some rest \<Rightarrow> Inr (rest, lbls)
     | None \<Rightarrow> tag_loop NAME_TAG_RES name lbls)"

section \<open>State, story type and estimate\<close>

text \<open>Lines 140 to 145: the pair (current state, story type) of a card in list \<open>lname\<close>.\<close>

definition resolve_state :: "config \<Rightarrow> string \<Rightarrow> string \<times> string" where
  "resolve_state cfg lname =
    (let current_state = dict_get (LIST_STATES cfg) lname ''unscheduled''
     in if current_state = ''epic'' then (''unscheduled'', ''epic'')
        else (current_state, ''feature''))"

text \<open>
  The loop over \<^verbatim>\<open>LABEL_ESTIMATES.items()\<close>: the first entry whose label is among the
  card's labels sets the estimate and breaks; otherwise the estimate is left as it was.
\<close>

fun scan_label_estimates :: "(string, int) dict \<Rightarrow> string list \<Rightarrow> int option \<Rightarrow> int option" where
  "scan_label_estimates [] lbls estimate = estimate"
| "scan_label_estimates ((label_nm, label_estimate) # rest) lbls estimate =
     (if label_nm \<in> set lbls then Some label_estimate
      else scan_label_estimates rest lbls estimate)"

text \<open>Lines 167 to 178.\<close>

definition determine_estimate :: "config \<Rightarrow> string \<Rightarrow> string \<Rightarrow> string \<Rightarrow> string list \<Rightarrow> int option" where
  "determine_estimate cfg lname story_type current_state lbls =
    (let estimate = map_of (LIST_ESTIMATES cfg) lname
     in if story_type = ''epic'' then None
        else if story_type = ''feature'' \<and> (current_state = ''unstarted'' \<or> current_state = ''unscheduled'')
        then None
        else (case scan_label_estimates (LABEL_ESTIMATES cfg) lbls estimate of
                None \<Rightarrow> Some (default_estimate cfg)
              | Some e \<Rightarrow> Some e))"

section \<open>Task flattening\<close>

text \<open>
  The variable \<^verbatim>\<open>checkItemStates\<close> is assigned only when the card has the field of that
  name; otherwise it keeps the value left by an earlier card, or is unbound. It is the one
  variable of the loop body that survives from card to card: \<open>None\<close> is \<open>unbound\<close>.
\<close>

type_synonym overrides = "(string, string) dict option"

text \<open>The dictionary comprehension of line 190.\<close>

definition build_overrides :: "check_item_state list \<Rightarrow> (string, string) dict" where
  "build_overrides items = foldl (\<lambda>d item. dict_set d (idCheckItem item) (state item)) [] items"

definition bind_overrides :: "overrides \<Rightarrow> card \<Rightarrow> overrides" where
  "bind_overrides ovs c =
    (case checkItemStates c of None \<Rightarrow> ovs | Some items \<Rightarrow> Some (build_overrides items))"

text \<open>
  Line 198 for one item: reading the unbound variable raises \<^verbatim>\<open>NameError\<close>, and the lookup
  in \<^verbatim>\<open>CHECKBOX_STATES\<close> raises \<^verbatim>\<open>KeyError\<close> on a state that is not in the table.
\<close>

definition item_status :: "overrides \<Rightarrow> check_item \<Rightarrow> error + string" where
  "item_status ovs item =
    (case ovs of
       None \<Rightarrow> Inl NameError
     | Some d \<Rightarrow> dict_index CHECKBOX_STATES (dict_get d (item_id item) (item_state item)))"

fun item_tasks :: "overrides \<Rightarrow> string \<Rightarrow> check_item list \<Rightarrow> error + string list" where
  "item_tasks ovs pre [] = Inr []"
| "item_tasks ovs pre (item # items) =
     (case item_status ovs item of
        Inl e \<Rightarrow> Inl e
      | Inr status \<Rightarrow>
         (case item_tasks ovs pre items of
            Inl e \<Rightarrow> Inl e
          | Inr rest \<Rightarrow> Inr ((pre @ item_name item) # status # rest)))"

definition checklist_prefix :: "checklist \<Rightarrow> string" where
  "checklist_prefix cl =
    (if checklist_name cl \<noteq> ''Checklist'' then checklist_name cl @ '': '' else [])"

fun checklist_tasks :: "overrides \<Rightarrow> checklist list \<Rightarrow> error + string list" where
  "checklist_tasks ovs [] = Inr []"
| "checklist_tasks ovs (cl # cls) =
     (case item_tasks ovs (checklist_prefix cl) (checkItems cl) of
        Inl e \<Rightarrow> Inl e
      | Inr ts \<Rightarrow>
         (case checklist_tasks ovs cls of
            Inl e \<Rightarrow> Inl e
          | Inr rest \<Rightarrow> Inr (ts @ rest)))"

text \<open>Lines 189 to 198: the tasks of a card and the binding of \<^verbatim>\<open>checkItemStates\<close> after it.\<close>

definition card_tasks :: "overrides \<Rightarrow> card \<Rightarrow> error + (string list \<times> overrides)" where
  "card_tasks ovs c =
    (let ovs' = bind_overrides ovs c
     in case checklist_tasks ovs' (case checklists c of None \<Rightarrow> [] | Some cls \<Rightarrow> cls) of
          Inl e \<Rightarrow> Inl e
        | Inr ts \<Rightarrow> Inr (ts, ovs'))"

section \<open>The row of a card\<close>

text \<open>Lines 184 to 185 and 201: the Description cell.\<close>

definition description_cell :: "card \<Rightarrow> string" where
  "description_cell c =
    (let orig_description = (case desc c of None \<Rightarrow> [] | Some d \<Rightarrow> d);
         description = (if orig_description \<noteq> [] then orig_description @ [newline] else [])
     in description @ ''Imported from '' @ url c)"

text \<open>Line 188: the owner is the first member of the card, looked up in \<^verbatim>\<open>members\<close>.\<close>

definition card_owner :: "(string, string) dict \<Rightarrow> card \<Rightarrow> error + string" where
  "card_owner mems c =
    (case idMembers c of [] \<Rightarrow> Inr [] | m # ms \<Rightarrow> dict_index mems m)"

text \<open>
  The body of the loop over the cards of a page (lines 136 to 212), in the order of the
  source, so that the first statement that raises decides the error.
\<close>

definition card_to_row :: "config \<Rightarrow> (string, string) dict \<Rightarrow> (string, string) dict \<Rightarrow> overrides
    \<Rightarrow> card \<Rightarrow> error + (cell list \<times> overrides)" where
  "card_to_row cfg lsts mems ovs c =
    (case dict_index lsts (idList c) of
       Inl e \<Rightarrow> Inl e
     | Inr lname \<Rightarrow>
        (let (current_state, story_type) = resolve_state cfg lname
         in case extract_title (card_name c) (map label_name (labels c)) of
              Inl e \<Rightarrow> Inl e
            | Inr (name, lbls) \<Rightarrow>
               (let estimate = determine_estimate cfg lname story_type current_state lbls;
                    lbls' = (if \<not> dict_has (LIST_STATES cfg) lname then lbls @ [lname] else lbls)
                in case card_owner mems c of
                     Inl e \<Rightarrow> Inl e
                   | Inr owner \<Rightarrow>
                      (case card_tasks ovs c of
                         Inl e \<Rightarrow> Inl e
                       | Inr (tasks, ovs') \<Rightarrow>
                          Inr ([Str name, Str (description_cell c), Str owner, Str owner,
                                Str (join '','' lbls'), Str current_state, Str story_type,
                                (case estimate of None \<Rightarrow> NoneCell | Some e \<Rightarrow> Num e)]
                               @ map Str tasks, ovs')))))"

text \<open>The cards of one page, in order; an error ends the run.\<close>

fun process_cards :: "config \<Rightarrow> (string, string) dict \<Rightarrow> (string, string) dict \<Rightarrow> overrides
    \<Rightarrow> card list \<Rightarrow> error + (cell list list \<times> overrides)" where
  "process_cards cfg lsts mems ovs [] = Inr ([], ovs)"
| "process_cards cfg lsts mems ovs (c # cs) =
     (case card_to_row cfg lsts mems ovs c of
        Inl e \<Rightarrow> Inl e
      | Inr (row, ovs') \<Rightarrow>
         (case process_cards cfg lsts mems ovs' cs of
            Inl e \<Rightarrow> Inl e
          | Inr (rows, ovs'') \<Rightarrow> Inr (row # rows, ovs'')))"

section \<open>Board model, header, ordering and pagination\<close>

text \<open>Lines 87 to 97: the three lookup dictionaries, filled in the order of the export.\<close>

definition build_lists :: "board_list list \<Rightarrow> (string, string) dict" where
  "build_lists ls = foldl (\<lambda>d l. dict_set d (list_id l) (list_name l)) [] ls"

definition build_listorders :: "board_list list \<Rightarrow> (string, py_number) dict" where
  "build_listorders ls = foldl (\<lambda>d l. dict_set d (list_id l) (list_pos l)) [] ls"

definition build_members :: "member list \<Rightarrow> (string, string) dict" where
  "build_members ms = foldl (\<lambda>d m. dict_set d (member_id m) (fullName m)) [] ms"

text \<open>Lines 106 to 112: \<^verbatim>\<open>max_num_tasks\<close> accumulates over all cards.\<close>

definition num_tasks :: "card \<Rightarrow> nat" where
  "num_tasks c =
    (case checklists c of
       None \<Rightarrow> 0
     | Some cls \<Rightarrow> foldl (\<lambda>n cl. n + length (checkItems cl)) 0 cls)"

definition max_num_tasks :: "card list \<Rightarrow> nat" where
  "max_num_tasks cs = foldl (\<lambda>m c. m + num_tasks c) 0 cs"

text \<open>Lines 115 to 118.\<close>

definition max_comments :: "card list \<Rightarrow> nat" where
  "max_comments cs = foldl (\<lambda>m c. case comments c of None \<Rightarrow> m | Some k \<Rightarrow> max m k) 0 cs"

text \<open>Lines 130 to 133: the header row written at the top of every page.\<close>

definition header :: "nat \<Rightarrow> nat \<Rightarrow> string list" where
  "header n_tasks n_comments =
    [''Title'', ''Description'', ''Owned By'', ''Requested By'', ''Labels'',
     ''Current State'', ''Type'', ''Estimate'']
    @ concat (replicate n_tasks [''Task'', ''Task Status''])
    @ replicate n_comments ''Comment''"

text \<open>
  \<^verbatim>\<open>float(x)\<close>. A double is returned as it is. An integer is rounded to the nearest double,
  a tie going to the even 53-bit significand; an integer whose rounded value reaches \<open>2^1024\<close>
  raises \<^verbatim>\<open>OverflowError\<close>. \<open>bit_length\<close> is the number of binary digits of a positive integer.
\<close>

function bit_length :: "int \<Rightarrow> nat" where
  "bit_length n = (if n \<le> 0 then 0 else Suc (bit_length (n div 2)))"
  by pat_completeness auto
termination
  by (relation "measure nat") auto

declare bit_length.simps [simp del]

definition float_of_int :: "int \<Rightarrow> error + rat" where
  "float_of_int n =
    (let a = \<bar>n\<bar>
     in if bit_length a \<le> 53 then Inr (of_int n)
        else
          (let e = bit_length a - 53;
               q = a div 2 ^ e;
               r = a mod 2 ^ e;
               q' = (if 2 ^ (e - 1) < r \<or> (r = 2 ^ (e - 1) \<and> odd q) then q + 1 else q);
               v = q' * 2 ^ e
           in if 2 ^ 1024 \<le> v then Inl OverflowError
              else Inr (of_int (if n < 0 then - v else v))))"

definition py_float :: "py_number \<Rightarrow> error + rat" where
  "py_float x = (case x of PyInt n \<Rightarrow> float_of_int n | PyFloat r \<Rightarrow> Inr r)"

text \<open>
  Line 122: \<^verbatim>\<open>list.sort\<close> computes the key of every element first (a card whose list id
  is not in \<^verbatim>\<open>listorders\<close> raises \<^verbatim>\<open>KeyError\<close>), then sorts stably by the keys, which are
  pairs of doubles compared lexicographically.
\<close>

definition card_key :: "(string, py_number) dict \<Rightarrow> card \<Rightarrow> error + (rat \<times> rat)" where
  "card_key listorders x =
    (case dict_index listorders (idList x) of
       Inl e \<Rightarrow> Inl e
     | Inr lp \<Rightarrow>
        (case py_float lp of
           Inl e \<Rightarrow> Inl e
         | Inr fl \<Rightarrow>
            (case py_float (pos x) of
               Inl e \<Rightarrow> Inl e
             | Inr fp \<Rightarrow> Inr (- fl, fp))))"

fun card_keys :: "(string, py_number) dict \<Rightarrow> card list \<Rightarrow> error + (rat \<times> rat) list" where
  "card_keys listorders [] = Inr []"
| "card_keys listorders (x # xs) =
     (case card_key listorders x of
        Inl e \<Rightarrow> Inl e
      | Inr k \<Rightarrow>
         (case card_keys listorders xs of
            Inl e \<Rightarrow> Inl e
          | Inr ks \<Rightarrow> Inr (k # ks)))"

definition sort_cards :: "(string, py_number) dict \<Rightarrow> card list \<Rightarrow> error + card list" where
  "sort_cards listorders cs =
    (case card_keys listorders cs of
       Inl e \<Rightarrow> Inl e
     | Inr ks \<Rightarrow> Inr (map snd (sort_key fst (zip ks cs))))"

text \<open>
  Python's slice \<^verbatim>\<open>xs[i:j]\<close>: a negative bound counts from the end, and both bounds are
  clipped to the list.
\<close>

definition py_slice :: "'a list \<Rightarrow> int \<Rightarrow> int \<Rightarrow> 'a list" where
  "py_slice xs i j =
    (let n = int (length xs);
         a = (if i < 0 then max 0 (i + n) else min i n);
         b = (if j < 0 then max 0 (j + n) else min j n)
     in take (nat (b - a)) (drop (nat a) xs))"

text \<open>
  Lines 66 to 69. \<^verbatim>\<open>/\<close> is Python 2's floor division of integers and raises
  \<^verbatim>\<open>ZeroDivisionError\<close> for a zero divisor; \<^verbatim>\<open>range(k)\<close> is \<open>[0..k - 1]\<close>.
\<close>

definition paginate :: "'a list \<Rightarrow> int \<Rightarrow> error + 'a list list" where
  "paginate iterable num =
    (if num = 0 then Inl ZeroDivisionError
     else Inr (filter (\<lambda>p. p \<noteq> [])
                 (map (\<lambda>i. py_slice iterable (i * num) ((i + 1) * num))
                      [0 .. int (length iterable) div num + 1 - 1])))"

text \<open>
  Lines 126 to 212: every page is written with the header followed by the rows of its
  cards; \<^verbatim>\<open>checkItemStates\<close> is carried from one page to the next.
\<close>

fun process_pages :: "config \<Rightarrow> (string, string) dict \<Rightarrow> (string, string) dict \<Rightarrow> string list
    \<Rightarrow> overrides \<Rightarrow> card list list \<Rightarrow> error + ((string list \<times> cell list list) list \<times> overrides)" where
  "process_pages cfg lsts mems hdr ovs [] = Inr ([], ovs)"
| "process_pages cfg lsts mems hdr ovs (pg # pgs) =
     (case process_cards cfg lsts mems ovs pg of
        Inl e \<Rightarrow> Inl e
      | Inr (rows, ovs') \<Rightarrow>
         (case process_pages cfg lsts mems hdr ovs' pgs of
            Inl e \<Rightarrow> Inl e
          | Inr (out, ovs'') \<Rightarrow> Inr ((hdr, rows) # out, ovs'')))"

text \<open>
  The whole run: the pages written, each a header with its rows, or the first error.
  \<open>story_limit\<close> is the argument \<^verbatim>\<open>--story-limit\<close>.
\<close>

definition main_program :: "config \<Rightarrow> int \<Rightarrow> board \<Rightarrow> error + (string list \<times> cell list list) list" where
  "main_program cfg story_limit b =
    (let lsts = build_lists (lists b);
         listorders = build_listorders (lists b);
         mems = build_members (members b);
         hdr = header (max_num_tasks (cards b)) (max_comments (cards b))
     in case sort_cards listorders (cards b) of
          Inl e \<Rightarrow> Inl e
        | Inr all_cards \<Rightarrow>
           (case paginate all_cards story_limit of
              Inl e \<Rightarrow> Inl e
            | Inr pages \<Rightarrow>
               (case process_pages cfg lsts mems hdr None pages of
                  Inl e \<Rightarrow> Inl e
                | Inr (out, ovs) \<Rightarrow> Inr out)))"

section \<open>Example inputs\<close>

text \<open>A board with one list of each kind and small cards, used to exercise the theorems.\<close>

definition ex_lists :: "(string, string) dict" where
  "ex_lists = [(''l0'', ''Epics / Triage''), (''l1'', ''In Progress Now''), (''l2'', ''Someday'')]"

definition ex_card :: card where
  "ex_card = \<lparr>card_id = ''c1'', card_name = ''Fix login'', desc = Some ''Users cannot log in'',
     url = ''https://trello.com/c/1'', idList = ''l1'', pos = PyFloat (65535 / 2), idMembers = [],
     labels = [\<lparr>label_name = ''Medium''\<rparr>], checklists = None,
     checkItemStates = Some [], comments = None\<rparr>"

definition ex_epic_card :: card where
  "ex_epic_card = ex_card\<lparr>idList := ''l0''\<rparr>"

definition ex_unmapped_card :: card where
  "ex_unmapped_card = ex_card\<lparr>idList := ''l2''\<rparr>"

definition ex_plain_card :: card where
  "ex_plain_card = ex_card\<lparr>labels := []\<rparr>"

definition ex_task_card :: card where
  "ex_task_card = ex_card\<lparr>
     checklists := Some
       [\<lparr>checklist_name = ''Checklist'',
         checkItems = [\<lparr>item_id = ''i1'', item_name = ''Write tests'', item_state = ''incomplete''\<rparr>]\<rparr>,
        \<lparr>checklist_name = ''QA'',
         checkItems = [\<lparr>item_id = ''i2'', item_name = ''Deploy'', item_state = ''incomplete''\<rparr>]\<rparr>],
     checkItemStates := Some [\<lparr>idCheckItem = ''i2'', state = ''complete''\<rparr>],
     comments := Some 2\<rparr>"

definition ex_bare_card :: card where
  "ex_bare_card = ex_task_card\<lparr>card_id := ''c2'', checkItemStates := None,
     checklists := Some
       [\<lparr>checklist_name = ''QA'',
         checkItems = [\<lparr>item_id = ''i2'', item_name = ''Deploy'', item_state = ''incomplete''\<rparr>]\<rparr>]\<rparr>"

definition ex_board :: board where
  "ex_board = \<lparr>board_name = ''Demo'',
     lists = [\<lparr>list_id = ''l0'', list_name = ''Epics / Triage'', list_pos = PyInt 1\<rparr>,
              \<lparr>list_id = ''l1'', list_name = ''In Progress Now'', list_pos = PyInt 2\<rparr>,
              \<lparr>list_id = ''l2'', list_name = ''Someday'', list_pos = PyFloat (5 / 2)\<rparr>],
     members = [],
     cards = [ex_epic_card, ex_task_card]\<rparr>"



section \<open>The row of a card, decomposed\<close>

lemma card_to_row_Inr:
  assumes "card_to_row cfg lsts mems ovs c = Inr (row, ovs')"
  obtains lname name lbls owner tasks where
      "dict_index lsts (idList c) = Inr lname"
      "extract_title (card_name c) (map label_name (labels c)) = Inr (name, lbls)"
      "card_owner mems c = Inr owner"
      "card_tasks ovs c = Inr (tasks, ovs')"
      "row = [Str name, Str (description_cell c), Str owner, Str owner,
             Str (join '','' (if \<not> dict_has (LIST_STATES cfg) lname then lbls @ [lname] else lbls)),
             Str (fst (resolve_state cfg lname)), Str (snd (resolve_state cfg lname)),
             (case determine_estimate cfg lname (snd (resolve_state cfg lname))
                     (fst (resolve_state cfg lname)) lbls of
                None \<Rightarrow> NoneCell | Some e \<Rightarrow> Num e)] @ map Str tasks"
proof (cases "dict_index lsts (idList c)")
  case (Inl e)
  with assms show ?thesis by (simp add: card_to_row_def)
next
  case lname: (Inr lname)
  show ?thesis
  proof (cases "extract_title (card_name c) (map label_name (labels c))")
    case (Inl e)
    with assms lname show ?thesis by (simp add: card_to_row_def split: prod.splits)
  next
    case (Inr p)
    obtain name lbls where p: "p = (name, lbls)" by (cases p)
    note title = Inr [unfolded p]
    show ?thesis
    proof (cases "card_owner mems c")
      case (Inl e)
      with assms lname title show ?thesis by (simp add: card_to_row_def split: prod.splits)
    next
      case owner: (Inr owner)
      show ?thesis
      proof (cases "card_tasks ovs c")
        case (Inl e)
        with assms lname title owner show ?thesis
          by (simp add: card_to_row_def split: prod.splits)
      next
        case (Inr q)
        obtain tasks o2 where q: "q = (tasks, o2)" by (cases q)
        note tasks = Inr [unfolded q]
        from assms lname title owner tasks
        have "o2 = ovs'" and "row = [Str name, Str (description_cell c), Str owner, Str owner,
             Str (join '','' (if \<not> dict_has (LIST_STATES cfg) lname then lbls @ [lname] else lbls)),
             Str (fst (resolve_state cfg lname)), Str (snd (resolve_state cfg lname)),
             (case determine_estimate cfg lname (snd (resolve_state cfg lname))
                     (fst (resolve_state cfg lname)) lbls of
                None \<Rightarrow> NoneCell | Some e \<Rightarrow> Num e)] @ map Str tasks"
          by (auto simp add: card_to_row_def Let_def split: prod.splits)
        with that lname title owner tasks show ?thesis by blast
      qed
    qed
  qed
qed

lemma scan_label_estimates_find:
  "scan_label_estimates tbl lbls est =
    (case find (\<lambda>entry. fst entry \<in> set lbls) tbl of
       None \<Rightarrow> est | Some entry \<Rightarrow> Some (snd entry))"
  by (induction tbl lbls est rule: scan_label_estimates.induct) auto

section \<open>Properties of the card transformer\<close>

text \<open>
  Claim C10: the Description cell of every emitted row is the raw description followed by a newline (both left out when the description is absent or empty), followed by the text "Imported from " and the URL of the card; so the cell is never empty and ends with the URL.
\<close>

theorem description_cell_imported_from:
  assumes "card_to_row cfg lsts mems ovs c = Inr (row, ovs')"
  shows "row ! 1 = Str ((case desc c of None \<Rightarrow> [] | Some d \<Rightarrow> if d = [] then [] else d @ [newline])
                        @ ''Imported from '' @ url c)
       \<and> row ! 1 \<noteq> Str []
       \<and> (\<exists>d. row ! 1 = Str d \<and> suffix (url c) d)"
proof -
  have r: "row ! 1 = Str (description_cell c)"
    by (rule card_to_row_Inr [OF assms]) simp
  have d: "description_cell c =
      (case desc c of None \<Rightarrow> [] | Some d \<Rightarrow> if d = [] then [] else d @ [newline])
        @ ''Imported from '' @ url c"
    by (simp add: description_cell_def split: option.splits)
  have s: "suffix (url c) (description_cell c)"
    unfolding d by (intro suffix_appendI) simp
  have n: "description_cell c \<noteq> []"
    unfolding d by simp
  show ?thesis using r d s n by auto
qed

theorem description_cell_imported_from_witness:
  "card_to_row (repo_config 0) ex_lists [] None ex_card =
     Inr ([Str ''Fix login'',
           Str (''Users cannot log in'' @ [newline] @ ''Imported from https://trello.com/c/1''),
           Str [], Str [], Str ''Medium'', Str ''started'', Str ''feature'', Num 2], Some [])
   \<and> [Str ''Fix login'',
        Str (''Users cannot log in'' @ [newline] @ ''Imported from https://trello.com/c/1''),
        Str [], Str [], Str ''Medium'', Str ''started'', Str ''feature'', Num 2] ! 1 \<noteq> Str []"
proof -
  have a: "card_to_row (repo_config 0) ex_lists [] None ex_card =
     Inr ([Str ''Fix login'',
           Str (''Users cannot log in'' @ [newline] @ ''Imported from https://trello.com/c/1''),
           Str [], Str [], Str ''Medium'', Str ''started'', Str ''feature'', Num 2], Some [])"
    by code_simp
  from description_cell_imported_from [OF a] a show ?thesis
    by blast
qed

text \<open>
  Claim C9: a card whose list name is not a key of the state table gets the workflow state unscheduled, and the raw list name is the last label of the emitted Labels cell.
\<close>

theorem unmapped_list_unscheduled:
  assumes "card_to_row cfg lsts mems ovs c = Inr (row, ovs')"
    and "dict_index lsts (idList c) = Inr lname"
    and "\<not> dict_has (LIST_STATES cfg) lname"
  shows "row ! 5 = Str ''unscheduled''
       \<and> (\<exists>name lbls. extract_title (card_name c) (map label_name (labels c)) = Inr (name, lbls)
             \<and> row ! 4 = Str (join '','' (lbls @ [lname])))"
proof -
  have st: "resolve_state cfg lname = (''unscheduled'', ''feature'')"
    using assms(3) by (simp add: resolve_state_def dict_has_def dict_get_def)
  show ?thesis
    by (rule card_to_row_Inr [OF assms(1)]) (use assms(2,3) st in auto)
qed

theorem unmapped_list_unscheduled_witness:
  "card_to_row (repo_config 0) ex_lists [] None ex_unmapped_card =
     Inr ([Str ''Fix login'', Str (description_cell ex_unmapped_card), Str [], Str [],
           Str ''Medium,Someday'', Str ''unscheduled'', Str ''feature'', NoneCell], Some [])
   \<and> dict_index ex_lists (idList ex_unmapped_card) = Inr ''Someday''
   \<and> \<not> dict_has (LIST_STATES (repo_config 0)) ''Someday''"
proof -
  have a: "card_to_row (repo_config 0) ex_lists [] None ex_unmapped_card =
     Inr ([Str ''Fix login'', Str (description_cell ex_unmapped_card), Str [], Str [],
           Str ''Medium,Someday'', Str ''unscheduled'', Str ''feature'', NoneCell], Some [])"
    by code_simp
  have b: "dict_index ex_lists (idList ex_unmapped_card) = Inr ''Someday''"
    by code_simp
  have c: "\<not> dict_has (LIST_STATES (repo_config 0)) ''Someday''"
    by code_simp
  from unmapped_list_unscheduled [OF a b c] a b c show ?thesis by simp
qed

text \<open>
  Claim C7: a card whose list name maps to the epic sentinel yields story type epic, workflow state unscheduled and no estimate, whatever its labels are.
\<close>

theorem epic_downgrade:
  assumes "card_to_row cfg lsts mems ovs c = Inr (row, ovs')"
    and "dict_index lsts (idList c) = Inr lname"
    and "map_of (LIST_STATES cfg) lname = Some ''epic''"
  shows "row ! 6 = Str ''epic'' \<and> row ! 5 = Str ''unscheduled'' \<and> row ! 7 = NoneCell"
proof -
  have st: "resolve_state cfg lname = (''unscheduled'', ''epic'')"
    using assms(3) by (simp add: resolve_state_def dict_get_def)
  have est: "determine_estimate cfg lname ''epic'' ''unscheduled'' lbls = None" for lbls
    by (simp add: determine_estimate_def)
  show ?thesis
    by (rule card_to_row_Inr [OF assms(1)]) (use assms(2) st est in auto)
qed

theorem epic_downgrade_witness:
  "card_to_row (repo_config 0) ex_lists [] None ex_epic_card =
     Inr ([Str ''Fix login'', Str (description_cell ex_epic_card), Str [], Str [], Str ''Medium'',
           Str ''unscheduled'', Str ''epic'', NoneCell], Some [])
   \<and> dict_index ex_lists (idList ex_epic_card) = Inr ''Epics / Triage''
   \<and> map_of (LIST_STATES (repo_config 0)) ''Epics / Triage'' = Some ''epic''"
proof -
  have a: "card_to_row (repo_config 0) ex_lists [] None ex_epic_card =
     Inr ([Str ''Fix login'', Str (description_cell ex_epic_card), Str [], Str [], Str ''Medium'',
           Str ''unscheduled'', Str ''epic'', NoneCell], Some [])"
    by code_simp
  have b: "dict_index ex_lists (idList ex_epic_card) = Inr ''Epics / Triage''"
    by code_simp
  have c: "map_of (LIST_STATES (repo_config 0)) ''Epics / Triage'' = Some ''epic''"
    by code_simp
  from epic_downgrade [OF a b c] a b c show ?thesis by simp
qed

text \<open>
  Claim C4: for a card that is not an epic, the estimate is null when the resolved state is unstarted or unscheduled; otherwise it is the value of the first entry of the label table, in table order, whose label is among the labels of the card; without such an entry it is the default of the list, and the configured default estimate when the list has none.
\<close>

theorem estimate_inference:
  assumes "card_to_row cfg lsts mems ovs c = Inr (row, ovs')"
    and "dict_index lsts (idList c) = Inr lname"
    and "extract_title (card_name c) (map label_name (labels c)) = Inr (name, lbls)"
    and "resolve_state cfg lname = (current_state, ''feature'')"
  shows "row ! 7 =
    (if current_state = ''unstarted'' \<or> current_state = ''unscheduled'' then NoneCell
     else case find (\<lambda>entry. fst entry \<in> set lbls) (LABEL_ESTIMATES cfg) of
            Some entry \<Rightarrow> Num (snd entry)
          | None \<Rightarrow>
             (case map_of (LIST_ESTIMATES cfg) lname of
                Some d \<Rightarrow> Num d
              | None \<Rightarrow> Num (default_estimate cfg)))"
proof -
  have r: "row ! 7 = (case determine_estimate cfg lname ''feature'' current_state lbls of
                None \<Rightarrow> NoneCell | Some e \<Rightarrow> Num e)"
    by (rule card_to_row_Inr [OF assms(1)]) (use assms(2,3,4) in auto)
  show ?thesis unfolding r
    by (simp add: determine_estimate_def scan_label_estimates_find split: option.splits)
qed

theorem estimate_inference_witness:
  "card_to_row (repo_config 0) ex_lists [] None ex_card =
     Inr ([Str ''Fix login'', Str (description_cell ex_card), Str [], Str [], Str ''Medium'',
           Str ''started'', Str ''feature'', Num 2], Some [])
   \<and> card_to_row (repo_config 1) ex_lists [] None ex_plain_card =
     Inr ([Str ''Fix login'', Str (description_cell ex_plain_card), Str [], Str [], Str [],
           Str ''started'', Str ''feature'', Num 1], Some [])
   \<and> find (\<lambda>entry. fst entry \<in> set [''Medium'']) (LABEL_ESTIMATES (repo_config 0)) = Some (''Medium'', 2)
   \<and> find (\<lambda>entry. fst entry \<in> set []) (LABEL_ESTIMATES (repo_config 1)) = None"
proof -
  have a1: "card_to_row (repo_config 0) ex_lists [] None ex_card =
     Inr ([Str ''Fix login'', Str (description_cell ex_card), Str [], Str [], Str ''Medium'',
           Str ''started'', Str ''feature'', Num 2], Some [])"
    by code_simp
  have b1: "dict_index ex_lists (idList ex_card) = Inr ''In Progress Now''"
    by code_simp
  have c1: "extract_title (card_name ex_card) (map label_name (labels ex_card)) =
      Inr (''Fix login'', [''Medium''])"
    by code_simp
  have d1: "resolve_state (repo_config 0) ''In Progress Now'' = (''started'', ''feature'')"
    by code_simp
  have a2: "card_to_row (repo_config 1) ex_lists [] None ex_plain_card =
     Inr ([Str ''Fix login'', Str (description_cell ex_plain_card), Str [], Str [], Str [],
           Str ''started'', Str ''feature'', Num 1], Some [])"
    by code_simp
  have b2: "dict_index ex_lists (idList ex_plain_card) = Inr ''In Progress Now''"
    by code_simp
  have c2: "extract_title (card_name ex_plain_card) (map label_name (labels ex_plain_card)) =
      Inr (''Fix login'', [])"
    by code_simp
  have d2: "resolve_state (repo_config 1) ''In Progress Now'' = (''started'', ''feature'')"
    by code_simp
  have f1: "find (\<lambda>entry. fst entry \<in> set [''Medium'']) (LABEL_ESTIMATES (repo_config 0)) =
      Some (''Medium'', 2)"
    by (simp add: repo_config_def repo_LABEL_ESTIMATES_def)
  have f2: "find (\<lambda>entry. fst entry \<in> set []) (LABEL_ESTIMATES (repo_config 1)) = None"
    by (simp add: repo_config_def repo_LABEL_ESTIMATES_def)
  note estimate_inference [OF a1 b1 c1 d1] estimate_inference [OF a2 b2 c2 d2]
  with a1 a2 f1 f2 show ?thesis by blast
qed

section \<open>Task flattening\<close>

lemma map_of_dict_set: "map_of (dict_set d k v) = (map_of d)(k \<mapsto> v)"
  by (induction d k v rule: dict_set.induct) auto

lemma map_of_foldl_dict_set:
  "map_of (foldl (\<lambda>d x. dict_set d (f x) (g x)) d0 xs) = map_of (rev (map (\<lambda>x. (f x, g x)) xs) @ d0)"
proof (induction xs arbitrary: d0)
  case Nil
  show ?case by simp
next
  case (Cons x xs)
  have "map_of (foldl (\<lambda>d x. dict_set d (f x) (g x)) (dict_set d0 (f x) (g x)) xs) =
        map_of (rev (map (\<lambda>x. (f x, g x)) xs) @ dict_set d0 (f x) (g x))"
    by (rule Cons.IH)
  also have "\<dots> = map_of (rev (map (\<lambda>x. (f x, g x)) xs) @ (f x, g x) # d0)"
    by (simp add: map_of_append map_of_dict_set)
  finally show ?case by simp
qed

lemma map_of_build_overrides:
  "map_of (build_overrides items) = map_of (rev (map (\<lambda>i. (idCheckItem i, state i)) items))"
  unfolding build_overrides_def using map_of_foldl_dict_set [of idCheckItem state "[]" items]
  by simp

lemma item_status_Some:
  "item_status (Some d) it =
    (let raw = (case map_of d (item_id it) of Some s \<Rightarrow> s | None \<Rightarrow> item_state it)
     in if raw = ''incomplete'' then Inr ''not completed''
        else if raw = ''complete'' then Inr ''completed''
        else Inl KeyError)"
  by (simp add: item_status_def dict_index_def dict_get_def CHECKBOX_STATES_def Let_def)

lemma item_tasks_Some:
  "item_tasks (Some d) pre its =
    (if \<forall>it\<in>set its. (case map_of d (item_id it) of Some s \<Rightarrow> s | None \<Rightarrow> item_state it)
                          \<in> {''incomplete'', ''complete''}
     then Inr (concat (map (\<lambda>it. [pre @ item_name it,
                 if (case map_of d (item_id it) of Some s \<Rightarrow> s | None \<Rightarrow> item_state it) = ''incomplete''
                 then ''not completed'' else ''completed'']) its))
     else Inl KeyError)"
proof (induction its)
  case Nil
  show ?case by simp
next
  case (Cons it its)
  show ?case
    unfolding item_tasks.simps Cons.IH item_status_Some Let_def
    by (simp split: option.splits)
qed

lemma checklist_tasks_Some:
  "checklist_tasks (Some d) cls =
    (if \<forall>cl\<in>set cls. \<forall>it\<in>set (checkItems cl).
          (case map_of d (item_id it) of Some s \<Rightarrow> s | None \<Rightarrow> item_state it)
            \<in> {''incomplete'', ''complete''}
     then Inr (concat (map (\<lambda>cl. concat (map (\<lambda>it. [checklist_prefix cl @ item_name it,
                 if (case map_of d (item_id it) of Some s \<Rightarrow> s | None \<Rightarrow> item_state it) = ''incomplete''
                 then ''not completed'' else ''completed'']) (checkItems cl))) cls))
     else Inl KeyError)"
proof (induction cls)
  case Nil
  show ?case by simp
next
  case (Cons cl cls)
  show ?case
    unfolding checklist_tasks.simps Cons.IH item_tasks_Some
    by simp
qed

text \<open>
  On a card that carries its own \<^verbatim>\<open>checkItemStates\<close>, every checklist contributes, for
  each of its items in order, the item name prefixed with the checklist name and a colon
  (no prefix for the default name \<^verbatim>\<open>Checklist\<close>) and the status of the item: the override
  stored under the item's id when there is one (the last one for that id), else the item's
  own state, with incomplete shown as "not completed" and complete as "completed". A state
  outside these two makes the lookup in \<^verbatim>\<open>CHECKBOX_STATES\<close> fail with \<^verbatim>\<open>KeyError\<close>.
\<close>

lemma card_tasks_own_overrides:
  assumes "checkItemStates c = Some items"
  shows "card_tasks ovs c =
    (let override = map_of (rev (map (\<lambda>i. (idCheckItem i, state i)) items));
         raw = (\<lambda>it. case override (item_id it) of Some s \<Rightarrow> s | None \<Rightarrow> item_state it);
         cls = (case checklists c of None \<Rightarrow> [] | Some cls \<Rightarrow> cls)
     in if \<forall>cl\<in>set cls. \<forall>it\<in>set (checkItems cl). raw it \<in> {''incomplete'', ''complete''}
        then Inr (concat (map (\<lambda>cl. concat (map (\<lambda>it.
                    [(if checklist_name cl = ''Checklist'' then [] else checklist_name cl @ '': '')
                       @ item_name it,
                     if raw it = ''incomplete'' then ''not completed'' else ''completed''])
                    (checkItems cl))) cls),
                  Some (build_overrides items))
        else Inl KeyError)"
proof -
  have b: "bind_overrides ovs c = Some (build_overrides items)"
    using assms by (simp add: bind_overrides_def)
  have p: "checklist_prefix cl = (if checklist_name cl = ''Checklist'' then [] else checklist_name cl @ '': '')" for cl
    by (simp add: checklist_prefix_def)
  show ?thesis
    unfolding card_tasks_def b Let_def checklist_tasks_Some map_of_build_overrides p
    by (cases "checklists c") simp_all
qed

lemma card_tasks_own_overrides_example:
  "checkItemStates ex_task_card = Some [\<lparr>idCheckItem = ''i2'', state = ''complete''\<rparr>]
   \<and> card_tasks None ex_task_card =
       Inr ([''Write tests'', ''not completed'', ''QA: Deploy'', ''completed''],
            Some [(''i2'', ''complete'')])"
proof -
  have a: "checkItemStates ex_task_card = Some [\<lparr>idCheckItem = ''i2'', state = ''complete''\<rparr>]"
    by (simp add: ex_task_card_def)
  have b: "card_tasks None ex_task_card =
       Inr ([''Write tests'', ''not completed'', ''QA: Deploy'', ''completed''],
            Some [(''i2'', ''complete'')])"
    by code_simp
  from card_tasks_own_overrides [OF a, of None] a b show ?thesis
    by blast
qed

section \<open>The header\<close>

lemma foldl_plus_sum_list: "foldl (\<lambda>m x. m + f x) a xs = a + sum_list (map f xs)"
  for a :: nat
  by (induction xs arbitrary: a) simp_all

lemma num_tasks_sum:
  "num_tasks c = (case checklists c of None \<Rightarrow> 0
                  | Some cls \<Rightarrow> sum_list (map (\<lambda>cl. length (checkItems cl)) cls))"
  by (simp add: num_tasks_def foldl_plus_sum_list split: option.splits)

lemma max_num_tasks_sum:
  "max_num_tasks cs = sum_list (map (\<lambda>c. case checklists c of None \<Rightarrow> 0
       | Some cls \<Rightarrow> sum_list (map (\<lambda>cl. length (checkItems cl)) cls)) cs)"
proof -
  have "max_num_tasks cs = sum_list (map num_tasks cs)"
    by (simp add: max_num_tasks_def foldl_plus_sum_list)
  also have "map num_tasks cs = map (\<lambda>c. case checklists c of None \<Rightarrow> 0
       | Some cls \<Rightarrow> sum_list (map (\<lambda>cl. length (checkItems cl)) cls)) cs"
    by (simp add: num_tasks_sum)
  finally show ?thesis .
qed

lemma foldl_comments_Max:
  "foldl (\<lambda>m c. case comments c of None \<Rightarrow> m | Some k \<Rightarrow> max m k) a cs =
   Max (insert a (set (map (\<lambda>c. case comments c of None \<Rightarrow> 0 | Some k \<Rightarrow> k) cs)))"
proof (induction cs arbitrary: a)
  case Nil
  show ?case by simp
next
  case (Cons c cs)
  let ?S = "set (map (\<lambda>c. case comments c of None \<Rightarrow> 0 | Some k \<Rightarrow> k) cs)"
  show ?case
  proof (cases "comments c")
    case None
    have "Max (insert a (insert 0 ?S)) = Max (insert a ?S)"
      by (cases "?S = {}") (simp_all add: max_def)
    with None Cons.IH [of a] show ?thesis by simp
  next
    case (Some k)
    have "Max (insert (max a k) ?S) = Max (insert a (insert k ?S))"
      by (cases "?S = {}") (simp_all add: max.assoc)
    with Some Cons.IH [of "max a k"] show ?thesis by simp
  qed
qed

lemma max_comments_Max:
  "max_comments cs = Max (insert 0 (set (map (\<lambda>c. case comments c of None \<Rightarrow> 0 | Some k \<Rightarrow> k) cs)))"
  unfolding max_comments_def by (rule foldl_comments_Max)

lemma length_concat_replicate_pair: "length (concat (replicate n [a, b])) = 2 * n"
  by (induction n) simp_all

lemma length_header: "length (header n m) = 8 + 2 * n + m"
  by (simp add: header_def length_concat_replicate_pair)

lemma process_pages_headers:
  "process_pages cfg lsts mems hdr ovs pgs = Inr (out, ovs') \<Longrightarrow> \<forall>pg\<in>set out. fst pg = hdr"
proof (induction pgs arbitrary: ovs out)
  case Nil
  then show ?case by simp
next
  case (Cons pg pgs)
  from Cons.prems obtain rows ovs1 rest where
      rest: "process_pages cfg lsts mems hdr ovs1 pgs = Inr (rest, ovs')"
      and out: "out = (hdr, rows) # rest"
    by (auto split: sum.splits prod.splits)
  from Cons.IH [OF rest] out show ?case by simp
qed

lemma main_program_headers:
  assumes "main_program cfg story_limit b = Inr pages"
  shows "\<forall>pg\<in>set pages. fst pg = header (max_num_tasks (cards b)) (max_comments (cards b))"
  using assms unfolding main_program_def Let_def
  by (auto split: sum.splits prod.splits dest!: process_pages_headers)

text \<open>
  Claim C3: the header written at the top of every page is the 8 fixed columns, then one
  (Task, Task Status) pair per counted task, then one Comment column per counted comment,
  where the task count is the sum over all cards of the number of their check items and the
  comment count is the greatest comment count of a card (0 when a card has none).
\<close>

theorem header_columns:
  "header (max_num_tasks (cards b)) (max_comments (cards b)) =
     [''Title'', ''Description'', ''Owned By'', ''Requested By'', ''Labels'',
      ''Current State'', ''Type'', ''Estimate'']
     @ concat (replicate (max_num_tasks (cards b)) [''Task'', ''Task Status''])
     @ replicate (max_comments (cards b)) ''Comment''
   \<and> length (header (max_num_tasks (cards b)) (max_comments (cards b))) =
       8 + 2 * max_num_tasks (cards b) + max_comments (cards b)
   \<and> max_num_tasks (cards b) =
       sum_list (map (\<lambda>c. case checklists c of None \<Rightarrow> 0
          | Some cls \<Rightarrow> sum_list (map (\<lambda>cl. length (checkItems cl)) cls)) (cards b))
   \<and> max_comments (cards b) =
       Max (insert 0 (set (map (\<lambda>c. case comments c of None \<Rightarrow> 0 | Some k \<Rightarrow> k) (cards b))))
   \<and> (main_program cfg story_limit b = Inr pages \<longrightarrow>
        (\<forall>pg\<in>set pages. fst pg = header (max_num_tasks (cards b)) (max_comments (cards b))))"
proof (intro conjI impI)
  show "header (max_num_tasks (cards b)) (max_comments (cards b)) =
     [''Title'', ''Description'', ''Owned By'', ''Requested By'', ''Labels'',
      ''Current State'', ''Type'', ''Estimate'']
     @ concat (replicate (max_num_tasks (cards b)) [''Task'', ''Task Status''])
     @ replicate (max_comments (cards b)) ''Comment''"
    by (simp only: header_def)
  show "length (header (max_num_tasks (cards b)) (max_comments (cards b))) =
       8 + 2 * max_num_tasks (cards b) + max_comments (cards b)"
    by (rule length_header)
  show "max_num_tasks (cards b) =
       sum_list (map (\<lambda>c. case checklists c of None \<Rightarrow> 0
          | Some cls \<Rightarrow> sum_list (map (\<lambda>cl. length (checkItems cl)) cls)) (cards b))"
    by (rule max_num_tasks_sum)
  show "max_comments (cards b) =
       Max (insert 0 (set (map (\<lambda>c. case comments c of None \<Rightarrow> 0 | Some k \<Rightarrow> k) (cards b))))"
    by (rule max_comments_Max)
  show "\<forall>pg\<in>set pages. fst pg = header (max_num_tasks (cards b)) (max_comments (cards b))"
    if "main_program cfg story_limit b = Inr pages"
    using that by (rule main_program_headers)
qed

theorem header_columns_witness:
  "main_program (repo_config 0) 500 ex_board = Inr [(header 2 2,
     [[Str ''Fix login'', Str (description_cell ex_task_card), Str [], Str [], Str ''Medium'',
       Str ''started'', Str ''feature'', Num 2, Str ''Write tests'', Str ''not completed'',
       Str ''QA: Deploy'', Str ''completed''],
      [Str ''Fix login'', Str (description_cell ex_epic_card), Str [], Str [], Str ''Medium'',
       Str ''unscheduled'', Str ''epic'', NoneCell]])]
   \<and> header 2 2 = header (max_num_tasks (cards ex_board)) (max_comments (cards ex_board))
   \<and> length (header 2 2) = 14"
proof -
  let ?rows = "[[Str ''Fix login'', Str (description_cell ex_task_card), Str [], Str [], Str ''Medium'',
       Str ''started'', Str ''feature'', Num 2, Str ''Write tests'', Str ''not completed'',
       Str ''QA: Deploy'', Str ''completed''],
      [Str ''Fix login'', Str (description_cell ex_epic_card), Str [], Str [], Str ''Medium'',
       Str ''unscheduled'', Str ''epic'', NoneCell]]"
  have a: "main_program (repo_config 0) 500 ex_board = Inr [(header 2 2, ?rows)]"
    by code_simp
  have b: "length (header 2 2) = 14"
    by code_simp
  from header_columns [of ex_board "repo_config 0" 500 "[(header 2 2, ?rows)]"]
  have "main_program (repo_config 0) 500 ex_board = Inr [(header 2 2, ?rows)] \<longrightarrow>
      (\<forall>pg\<in>set [(header 2 2, ?rows)].
          fst pg = header (max_num_tasks (cards ex_board)) (max_comments (cards ex_board)))"
    by blast
  with a have "header 2 2 = header (max_num_tasks (cards ex_board)) (max_comments (cards ex_board))"
    by simp
  with a b show ?thesis by blast
qed

section \<open>Inputs on which the program departs from its description\<close>

text \<open>
  Claim C1: the titles of the specification's two examples. The first pattern matches both
  (for the second it takes the tag text with its brackets, before the bracket pattern is
  tried), and the filter that is to drop numeric segments calls \<^verbatim>\<open>int\<close> on every segment:
  \<^verbatim>\<open>int('Bug')\<close> and \<^verbatim>\<open>int('[123')\<close> raise \<^verbatim>\<open>ValueError\<close>, so no row is produced.
\<close>

theorem tag_extraction_raises_ValueError:
  "match_tag_colon ''Bug: Fix login'' = Some (''Bug'', ''Fix login'')
   \<and> py_int ''Bug'' = Inl ValueError
   \<and> extract_title ''Bug: Fix login'' [] = Inl ValueError
   \<and> card_to_row (repo_config 0) ex_lists [] None (ex_card\<lparr>card_name := ''Bug: Fix login''\<rparr>)
       = Inl ValueError
   \<and> match_tag_colon ''[123/Backend]: Crash on save'' = Some (''[123/Backend]'', ''Crash on save'')
   \<and> map strip (split (CHR ''/'') ''[123/Backend]'') = [''[123'', ''Backend]'']
   \<and> py_int ''[123'' = Inl ValueError
   \<and> extract_title ''[123/Backend]: Crash on save'' [] = Inl ValueError"
proof (intro conjI)
  show "match_tag_colon ''Bug: Fix login'' = Some (''Bug'', ''Fix login'')"
    by code_simp
  show "py_int ''Bug'' = Inl ValueError"
    by code_simp
  show "extract_title ''Bug: Fix login'' [] = Inl ValueError"
    by code_simp
  show "card_to_row (repo_config 0) ex_lists [] None (ex_card\<lparr>card_name := ''Bug: Fix login''\<rparr>)
       = Inl ValueError"
    by code_simp
  show "match_tag_colon ''[123/Backend]: Crash on save'' = Some (''[123/Backend]'', ''Crash on save'')"
    by code_simp
  show "map strip (split (CHR ''/'') ''[123/Backend]'') = [''[123'', ''Backend]'']"
    by code_simp
  show "py_int ''[123'' = Inl ValueError"
    by code_simp
  show "extract_title ''[123/Backend]: Crash on save'' [] = Inl ValueError"
    by code_simp
qed

text \<open>
  Claim C2: a card with a checklist item and no \<^verbatim>\<open>checkItemStates\<close>. As the first card of
  a run it reads the unbound variable and raises \<^verbatim>\<open>NameError\<close>; after a card that had the
  field it is given that card's overrides, so its item \<^verbatim>\<open>i2\<close>, whose own state is
  incomplete, is written as completed.
\<close>

theorem missing_overrides_unbound_or_stale:
  "checkItemStates ex_bare_card = None
   \<and> checklists ex_bare_card = Some [\<lparr>checklist_name = ''QA'',
         checkItems = [\<lparr>item_id = ''i2'', item_name = ''Deploy'', item_state = ''incomplete''\<rparr>]\<rparr>]
   \<and> process_cards (repo_config 0) ex_lists [] None [ex_bare_card] = Inl NameError
   \<and> process_cards (repo_config 0) ex_lists [] None [ex_task_card, ex_bare_card] =
       Inr ([[Str ''Fix login'', Str (description_cell ex_task_card), Str [], Str [], Str ''Medium'',
              Str ''started'', Str ''feature'', Num 2, Str ''Write tests'', Str ''not completed'',
              Str ''QA: Deploy'', Str ''completed''],
             [Str ''Fix login'', Str (description_cell ex_bare_card), Str [], Str [], Str ''Medium'',
              Str ''started'', Str ''feature'', Num 2, Str ''QA: Deploy'', Str ''completed'']],
            Some [(''i2'', ''complete'')])"
proof (intro conjI)
  show "checkItemStates ex_bare_card = None"
    by code_simp
  show "checklists ex_bare_card = Some [\<lparr>checklist_name = ''QA'',
         checkItems = [\<lparr>item_id = ''i2'', item_name = ''Deploy'', item_state = ''incomplete''\<rparr>]\<rparr>]"
    by code_simp
  show "process_cards (repo_config 0) ex_lists [] None [ex_bare_card] = Inl NameError"
    by code_simp
  show "process_cards (repo_config 0) ex_lists [] None [ex_task_card, ex_bare_card] =
       Inr ([[Str ''Fix login'', Str (description_cell ex_task_card), Str [], Str [], Str ''Medium'',
              Str ''started'', Str ''feature'', Num 2, Str ''Write tests'', Str ''not completed'',
              Str ''QA: Deploy'', Str ''completed''],
             [Str ''Fix login'', Str (description_cell ex_bare_card), Str [], Str [], Str ''Medium'',
              Str ''started'', Str ''feature'', Num 2, Str ''QA: Deploy'', Str ''completed'']],
            Some [(''i2'', ''complete'')])"
    by code_simp
qed

text \<open>
  Claim C8: the status of an item is to be the override of its card when there is one,
  else the item's own state. On a card with a checklist and no \<^verbatim>\<open>checkItemStates\<close> the
  variable of line 198 is not the card's: unbound, the lookup raises \<^verbatim>\<open>NameError\<close>; left
  by an earlier card, it makes item \<^verbatim>\<open>i2\<close>, whose own state is incomplete, "completed".
  With an empty map in its place the item would be "not completed".
\<close>

theorem task_status_without_own_overrides:
  "checkItemStates ex_bare_card = None
   \<and> checklists ex_bare_card = Some [\<lparr>checklist_name = ''QA'',
         checkItems = [\<lparr>item_id = ''i2'', item_name = ''Deploy'', item_state = ''incomplete''\<rparr>]\<rparr>]
   \<and> card_tasks None ex_bare_card = Inl NameError
   \<and> card_tasks (Some [(''i2'', ''complete'')]) ex_bare_card =
       Inr ([''QA: Deploy'', ''completed''], Some [(''i2'', ''complete'')])
   \<and> card_tasks (Some []) ex_bare_card = Inr ([''QA: Deploy'', ''not completed''], Some [])"
proof (intro conjI)
  show "checkItemStates ex_bare_card = None"
    by code_simp
  show "checklists ex_bare_card = Some [\<lparr>checklist_name = ''QA'',
         checkItems = [\<lparr>item_id = ''i2'', item_name = ''Deploy'', item_state = ''incomplete''\<rparr>]\<rparr>]"
    by code_simp
  show "card_tasks None ex_bare_card = Inl NameError"
    by code_simp
  show "card_tasks (Some [(''i2'', ''complete'')]) ex_bare_card =
       Inr ([''QA: Deploy'', ''completed''], Some [(''i2'', ''complete'')])"
    by code_simp
  show "card_tasks (Some []) ex_bare_card = Inr ([''QA: Deploy'', ''not completed''], Some [])"
    by code_simp
qed

section \<open>Pagination\<close>

lemma nat_int_diff_trunc: "nat (int a - int b) = a - b"
  by arith

lemma py_slice_nat:
  "py_slice xs (int a) (int b) =
     take (min b (length xs) - min a (length xs)) (drop (min a (length xs)) xs)"
proof -
  have m: "min (int c) (int d) = int (min c d)" for c d
    by simp
  show ?thesis
    unfolding py_slice_def Let_def m
    by (simp only: of_nat_less_0_iff if_False nat_int nat_int_diff_trunc)
qed

lemma py_slice_page:
  assumes "0 < num"
  shows "py_slice xs (int i * num) ((int i + 1) * num) = take (nat num) (drop (i * nat num) xs)"
proof -
  define k where "k = nat num"
  have k: "num = int k"
    using assms by (simp add: k_def)
  have i1: "int i * int k = int (i * k)"
    by simp
  have i2: "(int i + 1) * int k = int (Suc i * k)"
    by (simp add: algebra_simps)
  have "py_slice xs (int i * int k) ((int i + 1) * int k) =
      take (min (Suc i * k) (length xs) - min (i * k) (length xs)) (drop (min (i * k) (length xs)) xs)"
    unfolding i1 i2 by (rule py_slice_nat)
  also have "\<dots> = take k (drop (i * k) xs)"
  proof (cases "i * k \<le> length xs")
    case True
    then show ?thesis by (cases "Suc i * k \<le> length xs") (simp_all add: min_def)
  next
    case False
    then show ?thesis by simp
  qed
  finally show ?thesis by (simp add: k)
qed

lemma upto_as_upt: "[0 .. int m] = map int [0 ..< Suc m]"
proof (induction m)
  case 0
  show ?case by simp
next
  case (Suc m)
  have "[0 .. int (Suc m)] = [0 .. int (Suc m) - 1] @ [int (Suc m)]"
    by (rule upto_rec2) simp
  also have "int (Suc m) - 1 = int m"
    by simp
  finally show ?case
    using Suc.IH by simp
qed

lemma concat_pages: "concat (map (\<lambda>i. take k (drop (i * k) xs)) [0 ..< m]) = take (m * k) xs"
proof (induction m)
  case 0
  show ?case by simp
next
  case (Suc m)
  have "take (m * k) xs @ take k (drop (m * k) xs) = take (m * k + k) xs"
    by (simp add: take_add)
  with Suc.IH show ?case by (simp add: add.commute)
qed

lemma full_pages:
  assumes "0 < k" and "m \<le> length xs div k"
  shows "filter (\<lambda>p. p \<noteq> []) (map (\<lambda>i. take k (drop (i * k) xs)) [0 ..< m])
       = map (\<lambda>i. take k (drop (i * k) xs)) [0 ..< m]"
    and "\<forall>p\<in>set (map (\<lambda>i. take k (drop (i * k) xs)) [0 ..< m]). length p = k"
proof -
  have len: "length (take k (drop (i * k) xs)) = k" if "i < m" for i
  proof -
    from that assms(2) have "Suc i \<le> length xs div k" by simp
    then have "Suc i * k \<le> length xs div k * k"
      by (rule mult_le_mono1)
    also have "\<dots> \<le> length xs"
      by simp
    finally show ?thesis by simp
  qed
  then show "\<forall>p\<in>set (map (\<lambda>i. take k (drop (i * k) xs)) [0 ..< m]). length p = k"
    by auto
  then have "\<forall>p\<in>set (map (\<lambda>i. take k (drop (i * k) xs)) [0 ..< m]). p \<noteq> []"
    using assms(1) by auto
  then show "filter (\<lambda>p. p \<noteq> []) (map (\<lambda>i. take k (drop (i * k) xs)) [0 ..< m])
       = map (\<lambda>i. take k (drop (i * k) xs)) [0 ..< m]"
    by (simp only: filter_True)
qed

lemma paginate_pos:
  assumes "0 < num"
  shows "paginate xs num =
    Inr (map (\<lambda>i. take (nat num) (drop (i * nat num) xs)) [0 ..< length xs div nat num]
         @ (if length xs mod nat num = 0 then [] else [drop (length xs div nat num * nat num) xs]))"
proof -
  define k where "k = nat num"
  define q where "q = length xs div k"
  have k: "num = int k" and kpos: "0 < k"
    using assms by (simp_all add: k_def)
  have d: "int (length xs) div num + 1 - 1 = int q"
    by (simp add: k q_def zdiv_int)
  have sl: "map (\<lambda>i. py_slice xs (i * num) ((i + 1) * num)) (map int [0 ..< Suc q])
          = map (\<lambda>i. take k (drop (i * k) xs)) [0 ..< Suc q]"
    using py_slice_page [OF assms, of xs] by (simp add: k_def comp_def)
  have last: "take k (drop (q * k) xs) = drop (q * k) xs"
  proof -
    have "length xs < Suc q * k"
      unfolding q_def using kpos by (simp add: dividend_less_div_times add.commute)
    then show ?thesis by simp
  qed
  have empty: "(drop (q * k) xs = []) = (length xs mod k = 0)"
  proof -
    have "q * k + length xs mod k = length xs"
      by (simp add: q_def)
    then have "(length xs \<le> q * k) = (length xs mod k = 0)"
      by linarith
    then show ?thesis
      by (simp only: drop_eq_Nil)
  qed
  have "paginate xs num =
      Inr (filter (\<lambda>p. p \<noteq> []) (map (\<lambda>i. take k (drop (i * k) xs)) [0 ..< Suc q]))"
    using assms unfolding paginate_def d upto_as_upt sl by simp
  also have "filter (\<lambda>p. p \<noteq> []) (map (\<lambda>i. take k (drop (i * k) xs)) [0 ..< Suc q])
      = map (\<lambda>i. take k (drop (i * k) xs)) [0 ..< q]
        @ (if length xs mod k = 0 then [] else [drop (q * k) xs])"
    using full_pages(1) [OF kpos, of q xs] last empty by (simp add: q_def)
  finally show ?thesis
    by (simp add: k_def q_def)
qed


lemma process_cards_append:
  "process_cards cfg lsts mems ovs (xs @ ys) =
    (case process_cards cfg lsts mems ovs xs of
       Inl e \<Rightarrow> Inl e
     | Inr (r1, o1) \<Rightarrow>
        (case process_cards cfg lsts mems o1 ys of
           Inl e \<Rightarrow> Inl e
         | Inr (r2, o2) \<Rightarrow> Inr (r1 @ r2, o2)))"
  by (induction xs arbitrary: ovs) (simp_all split: sum.splits prod.splits)

lemma process_cards_length:
  "process_cards cfg lsts mems ovs cs = Inr (rs, ovs') \<Longrightarrow> length rs = length cs"
proof (induction cs arbitrary: ovs rs)
  case Nil
  then show ?case by simp
next
  case (Cons c cs)
  from Cons.prems obtain row o1 rest where
      rest: "process_cards cfg lsts mems o1 cs = Inr (rest, ovs')" and rs: "rs = row # rest"
    by (auto split: sum.splits prod.splits)
  from Cons.IH [OF rest] rs show ?case by simp
qed

lemma process_pages_concat:
  "process_cards cfg lsts mems ovs (concat pgs) = Inr (rs, ovs') \<Longrightarrow>
     \<exists>out. process_pages cfg lsts mems hdr ovs pgs = Inr (out, ovs')
         \<and> concat (map snd out) = rs
         \<and> map (\<lambda>pg. length (snd pg)) out = map length pgs"
proof (induction pgs arbitrary: ovs rs)
  case Nil
  then show ?case by simp
next
  case (Cons pg pgs)
  from Cons.prems obtain r1 o1 r2 where
      r1: "process_cards cfg lsts mems ovs pg = Inr (r1, o1)"
      and r2: "process_cards cfg lsts mems o1 (concat pgs) = Inr (r2, ovs')"
      and rs: "rs = r1 @ r2"
    by (auto simp: process_cards_append split: sum.splits prod.splits)
  from Cons.IH [OF r2] obtain out where
      out: "process_pages cfg lsts mems hdr o1 pgs = Inr (out, ovs')"
      and c: "concat (map snd out) = r2"
      and l: "map (\<lambda>pg. length (snd pg)) out = map length pgs"
    by blast
  have "process_pages cfg lsts mems hdr ovs (pg # pgs) = Inr ((hdr, r1) # out, ovs')"
    using r1 out by simp
  moreover have "concat (map snd ((hdr, r1) # out)) = rs"
    using c rs by simp
  moreover have "map (\<lambda>pg. length (snd pg)) ((hdr, r1) # out) = map length (pg # pgs)"
    using l process_cards_length [OF r1] by simp
  ultimately show ?case by blast
qed

text \<open>
  Claim C5: for a positive page limit, \<^verbatim>\<open>paginate\<close> returns pages whose concatenation is
  the input sequence; no page is empty; no page is longer than the limit and every page but
  the last has exactly the limit. When the cards are transformed page by page, the rows of
  the pages, concatenated, are the rows of the whole sequence transformed in order, and each
  page has as many rows as cards, so the pages written are non-empty and sized in the same way.
\<close>

theorem pagination_law:
  assumes "0 < num"
  shows "\<exists>pages. paginate xs num = Inr pages
      \<and> concat pages = xs
      \<and> (\<forall>p\<in>set pages. p \<noteq> [])
      \<and> (\<forall>i<length pages. int (length (pages ! i)) \<le> num
             \<and> (Suc i < length pages \<longrightarrow> int (length (pages ! i)) = num))
      \<and> (\<forall>rs ovs'. process_cards cfg lsts mems ovs cs = Inr (rs, ovs') \<longrightarrow>
            (\<exists>cpages out. paginate cs num = Inr cpages
                \<and> process_pages cfg lsts mems hdr ovs cpages = Inr (out, ovs')
                \<and> concat (map snd out) = rs
                \<and> map (\<lambda>pg. length (snd pg)) out = map length cpages
                \<and> (\<forall>pg\<in>set out. snd pg \<noteq> [])
                \<and> (\<forall>i<length out. int (length (snd (out ! i))) \<le> num
                       \<and> (Suc i < length out \<longrightarrow> int (length (snd (out ! i))) = num))))"
proof -
  define k where "k = nat num"
  have k: "num = int k" and kpos: "0 < k"
    using assms by (simp_all add: k_def)
  have shape: "\<exists>pages. paginate ys num = Inr pages \<and> concat pages = ys
      \<and> (\<forall>p\<in>set pages. p \<noteq> [])
      \<and> (\<forall>i<length pages. length (pages ! i) \<le> k
             \<and> (Suc i < length pages \<longrightarrow> length (pages ! i) = k))" for ys :: "'b list"
  proof -
    define q where "q = length ys div k"
    define full where "full = map (\<lambda>i. take k (drop (i * k) ys)) [0 ..< q]"
    define rest where "rest = (if length ys mod k = 0 then [] else [drop (q * k) ys])"
    have p: "paginate ys num = Inr (full @ rest)"
      using paginate_pos [OF assms, of ys] by (simp add: full_def rest_def q_def k_def)
    have full_len: "\<forall>p\<in>set full. length p = k"
      unfolding full_def using full_pages(2) [OF kpos, of q ys] by (simp add: q_def)
    have lf: "length full = q"
      by (simp add: full_def)
    have "concat full = take (q * k) ys"
      unfolding full_def by (rule concat_pages)
    moreover have "concat rest = drop (q * k) ys"
    proof (cases "length ys mod k = 0")
      case True
      have "q * k + length ys mod k = length ys"
        by (simp add: q_def)
      with True have "length ys = q * k"
        by linarith
      with True show ?thesis by (simp add: rest_def)
    next
      case False
      then show ?thesis by (simp add: rest_def)
    qed
    ultimately have c: "concat (full @ rest) = ys"
      by simp
    have rest_len: "\<forall>p\<in>set rest. p \<noteq> [] \<and> length p \<le> k"
    proof (cases "length ys mod k = 0")
      case True
      then show ?thesis by (simp add: rest_def)
    next
      case False
      have "length (drop (q * k) ys) = length ys mod k"
        by (simp add: q_def modulo_nat_def)
      with False kpos show ?thesis
        by (auto simp: rest_def intro: less_imp_le)
    qed
    have ne: "\<forall>p\<in>set (full @ rest). p \<noteq> []"
      using full_len rest_len kpos by auto
    have sizes: "length ((full @ rest) ! i) \<le> k
        \<and> (Suc i < length (full @ rest) \<longrightarrow> length ((full @ rest) ! i) = k)"
      if "i < length (full @ rest)" for i
    proof (cases "i < length full")
      case True
      then have "(full @ rest) ! i \<in> set full"
        by (simp add: nth_append)
      with full_len show ?thesis by simp
    next
      case False
      have "length rest \<le> 1"
        by (simp add: rest_def)
      with False that have last: "\<not> Suc i < length (full @ rest)"
        by simp
      from False that have "(full @ rest) ! i \<in> set rest"
        by (simp add: nth_append)
      with rest_len last show ?thesis by simp
    qed
    from p c ne sizes show ?thesis by blast
  qed
  from shape [of xs] obtain pages where
      p1: "paginate xs num = Inr pages" and p2: "concat pages = xs"
      and p3: "\<forall>p\<in>set pages. p \<noteq> []"
      and p4: "\<forall>i<length pages. length (pages ! i) \<le> k
             \<and> (Suc i < length pages \<longrightarrow> length (pages ! i) = k)"
    by blast
  from p4 have p4': "\<forall>i<length pages. int (length (pages ! i)) \<le> num
             \<and> (Suc i < length pages \<longrightarrow> int (length (pages ! i)) = num)"
    by (simp add: k)
  have p5: "\<exists>cpages out. paginate cs num = Inr cpages
                \<and> process_pages cfg lsts mems hdr ovs cpages = Inr (out, ovs')
                \<and> concat (map snd out) = rs
                \<and> map (\<lambda>pg. length (snd pg)) out = map length cpages
                \<and> (\<forall>pg\<in>set out. snd pg \<noteq> [])
                \<and> (\<forall>i<length out. int (length (snd (out ! i))) \<le> num
                       \<and> (Suc i < length out \<longrightarrow> int (length (snd (out ! i))) = num))"
    if run: "process_cards cfg lsts mems ovs cs = Inr (rs, ovs')" for rs ovs'
  proof -
    from shape [of cs] obtain cpages where
        c1: "paginate cs num = Inr cpages" and c2: "concat cpages = cs"
        and c3: "\<forall>p\<in>set cpages. p \<noteq> []"
        and c4: "\<forall>i<length cpages. length (cpages ! i) \<le> k
             \<and> (Suc i < length cpages \<longrightarrow> length (cpages ! i) = k)"
      by blast
    from run c2 have "process_cards cfg lsts mems ovs (concat cpages) = Inr (rs, ovs')"
      by simp
    from process_pages_concat [OF this, of hdr] obtain out where
        o1: "process_pages cfg lsts mems hdr ovs cpages = Inr (out, ovs')"
        and o2: "concat (map snd out) = rs"
        and o3: "map (\<lambda>pg. length (snd pg)) out = map length cpages"
      by blast
    from o3 have len: "length out = length cpages"
      by (rule map_eq_imp_length_eq)
    have nth: "length (snd (out ! i)) = length (cpages ! i)" if "i < length out" for i
    proof -
      from that have "length (snd (out ! i)) = map (\<lambda>pg. length (snd pg)) out ! i"
        by simp
      also have "\<dots> = map length cpages ! i"
        by (simp only: o3)
      also from that len have "\<dots> = length (cpages ! i)"
        by simp
      finally show ?thesis .
    qed
    have o4: "\<forall>pg\<in>set out. snd pg \<noteq> []"
    proof
      fix pg
      assume "pg \<in> set out"
      then obtain i where i: "i < length out" and pg: "pg = out ! i"
        by (auto simp: in_set_conv_nth)
      from i len c3 have "cpages ! i \<noteq> []"
        by simp
      with nth [OF i] pg show "snd pg \<noteq> []"
        by auto
    qed
    have o5: "\<forall>i<length out. int (length (snd (out ! i))) \<le> num
                       \<and> (Suc i < length out \<longrightarrow> int (length (snd (out ! i))) = num)"
      using c4 len nth by (simp add: k)
    from c1 o1 o2 o3 o4 o5 show ?thesis
      by blast
  qed
  from p1 p2 p3 p4' p5 show ?thesis by blast
qed

theorem pagination_law_witness:
  "(0::int) < 2
   \<and> paginate [ex_epic_card, ex_plain_card, ex_card] 2 = Inr [[ex_epic_card, ex_plain_card], [ex_card]]
   \<and> process_pages (repo_config 0) ex_lists [] (header 0 0) None
         [[ex_epic_card, ex_plain_card], [ex_card]] =
       Inr ([(header 0 0,
              [[Str ''Fix login'', Str (description_cell ex_epic_card), Str [], Str [], Str ''Medium'',
                Str ''unscheduled'', Str ''epic'', NoneCell],
               [Str ''Fix login'', Str (description_cell ex_plain_card), Str [], Str [], Str [],
                Str ''started'', Str ''feature'', Num 0]]),
             (header 0 0,
              [[Str ''Fix login'', Str (description_cell ex_card), Str [], Str [], Str ''Medium'',
                Str ''started'', Str ''feature'', Num 2]])], Some [])
   \<and> concat [[ex_epic_card, ex_plain_card], [ex_card]] = [ex_epic_card, ex_plain_card, ex_card]"
proof -
  have a: "(0::int) < 2"
    by simp
  have b: "paginate [ex_epic_card, ex_plain_card, ex_card] 2 =
      Inr [[ex_epic_card, ex_plain_card], [ex_card]]"
    by code_simp
  have c: "process_pages (repo_config 0) ex_lists [] (header 0 0) None
         [[ex_epic_card, ex_plain_card], [ex_card]] =
       Inr ([(header 0 0,
              [[Str ''Fix login'', Str (description_cell ex_epic_card), Str [], Str [], Str ''Medium'',
                Str ''unscheduled'', Str ''epic'', NoneCell],
               [Str ''Fix login'', Str (description_cell ex_plain_card), Str [], Str [], Str [],
                Str ''started'', Str ''feature'', Num 0]]),
             (header 0 0,
              [[Str ''Fix login'', Str (description_cell ex_card), Str [], Str [], Str ''Medium'',
                Str ''started'', Str ''feature'', Num 2]])], Some [])"
    by code_simp
  from pagination_law [OF a, of "[ex_epic_card, ex_plain_card, ex_card]"] b
  have d: "concat [[ex_epic_card, ex_plain_card], [ex_card]] = [ex_epic_card, ex_plain_card, ex_card]"
    by auto
  from a b c d show ?thesis by blast
qed

section \<open>Card order\<close>












end
